theory Spec2Isabelle
  imports Complex_Main
begin

section \<open>Marker clustering of MapWithClustering.tsx\<close>

text \<open>
  The development embeds \<^verbatim>\<open>createClusters\<close> of
  \<^verbatim>\<open>src/components/common/MapWithClustering.tsx\<close>. Numbers are modelled as reals.
  Exceptions are values of type \<open>error\<close>; a call that throws inside a \<^verbatim>\<open>forEach\<close>
  callback aborts the whole call, which is what \<open>forEach\<close> below does on \<open>Inl\<close>.
\<close>

subsection \<open>Data\<close>

record Coordinates =
  latitude :: real
  longitude :: real

text \<open>
  \<^verbatim>\<open>Location\<close> of \<^verbatim>\<open>types/index.ts\<close>. \<^verbatim>\<open>createClusters\<close> reads the fields
  \<^verbatim>\<open>id\<close> and \<^verbatim>\<open>coordinates\<close> only; \<open>name\<close> stands for the fields it passes through unread.
  The field \<^verbatim>\<open>id\<close> is called \<open>id_loc\<close>, since \<open>id\<close> is the identity function of HOL.
\<close>

record Location =
  id_loc :: string
  name :: string
  coordinates :: Coordinates

type_synonym LatLng = "real \<times> real"

type_synonym Point = "real \<times> real"

text \<open>
  The \<^verbatim>\<open>map\<close> argument is used through \<^verbatim>\<open>map.latLngToContainerPoint\<close> only, so a map is
  that projection; \<open>None\<close> is a call of it that throws. A \<^verbatim>\<open>null\<close> map is \<open>None\<close> of
  \<open>LMap option\<close>.
\<close>

type_synonym LMap = "LatLng \<Rightarrow> Point option"

datatype error = ProjectionFailure | InvalidBounds | InvalidThreshold

text \<open>
  \<open>ProjectionFailure\<close> is a throwing projection and \<open>InvalidBounds\<close> the centre of bounds
  without corners. \<open>InvalidThreshold\<close> is the error the specification names for a negative
  threshold; no statement of \<^verbatim>\<open>createClusters\<close> raises it.
\<close>

text \<open>
  Modelled from the spec: \<^verbatim>\<open>Point.distanceTo\<close> belongs to the Leaflet library, which is not
  among the sources. The specification calls it the screen-space Euclidean distance.
\<close>

definition distanceTo :: "Point \<Rightarrow> Point \<Rightarrow> real" where
  "distanceTo p q = sqrt ((fst q - fst p)\<^sup>2 + (snd q - snd p)\<^sup>2)"

text \<open>
  Modelled from the spec: \<^verbatim>\<open>L.LatLngBounds\<close> and its \<^verbatim>\<open>getCenter\<close> belong to the Leaflet
  library, which is not among the sources. The bounding extent is the min/max latitude and
  longitude over the given points, and the centre is the midpoint of that extent. Bounds built
  from no point have no corners, and asking for their centre is an error.
\<close>

datatype LatLngBounds = NoCorners | Corners (southWest: LatLng) (northEast: LatLng)

fun extend_bounds :: "LatLngBounds \<Rightarrow> LatLng \<Rightarrow> LatLngBounds" where
  "extend_bounds NoCorners p = Corners p p"
| "extend_bounds (Corners (s, w) (n, e)) (lat, lng) =
     Corners (min lat s, min lng w) (max lat n, max lng e)"

definition newLatLngBounds :: "LatLng list \<Rightarrow> LatLngBounds" where
  "newLatLngBounds ps = foldl extend_bounds NoCorners ps"

fun getCenter :: "LatLngBounds \<Rightarrow> error + LatLng" where
  "getCenter NoCorners = Inl InvalidBounds"
| "getCenter (Corners (s, w) (n, e)) = Inr ((s + n) / 2, (w + e) / 2)"

record ClusterGroup =
  center :: LatLng
  locations :: "Location list"
  bounds :: LatLngBounds

text \<open>An element of the returned array: \<^verbatim>\<open>ClusterGroup | Location\<close>.\<close>

datatype item = IsCluster ClusterGroup | IsLocation Location

subsection \<open>The two nested loops\<close>

text \<open>
  The variables the callbacks update: the array \<^verbatim>\<open>clusters\<close>, the set \<^verbatim>\<open>processed\<close>, and
  \<open>calls\<close>, the arguments of the calls of \<^verbatim>\<open>latLngToContainerPoint\<close> made so far, in order.
  \<open>calls\<close> is not a variable of the source: it records its projection calls.
\<close>

record vars =
  clusters :: "ClusterGroup list"
  processed :: "string set"
  calls :: "LatLng list"

definition latLng :: "Location \<Rightarrow> LatLng" where
  "latLng loc = (latitude (coordinates loc), longitude (coordinates loc))"

fun forEach :: "'a list \<Rightarrow> ('a \<Rightarrow> 's \<Rightarrow> error + 's) \<Rightarrow> 's \<Rightarrow> error + 's" where
  "forEach [] f s = Inr s"
| "forEach (x # xs) f s = (case f x s of Inl e \<Rightarrow> Inl e | Inr s' \<Rightarrow> forEach xs f s')"

text \<open>Lines 65 to 75: the callback of the inner loop, on \<^verbatim>\<open>nearbyLocations\<close> and the variables.\<close>

definition inner :: "LMap \<Rightarrow> Point \<Rightarrow> real \<Rightarrow> Location \<Rightarrow>
    Location list \<times> vars \<Rightarrow> error + Location list \<times> vars" where
  "inner m locationPoint clusterDistance otherLocation st =
     (case st of (nearbyLocations, v) \<Rightarrow>
        if id_loc otherLocation \<in> processed v then Inr (nearbyLocations, v)
        else (case m (latLng otherLocation) of
            None \<Rightarrow> Inl ProjectionFailure
          | Some otherPoint \<Rightarrow>
              let v1 = v\<lparr>calls := calls v @ [latLng otherLocation]\<rparr>;
                  distance = distanceTo locationPoint otherPoint
              in if distance \<le> clusterDistance
                 then Inr (nearbyLocations @ [otherLocation],
                           v1\<lparr>processed := insert (id_loc otherLocation) (processed v1)\<rparr>)
                 else Inr (nearbyLocations, v1)))"

text \<open>Lines 57 to 87: the callback of the outer loop.\<close>

definition outer :: "LMap \<Rightarrow> real \<Rightarrow> Location list \<Rightarrow> Location \<Rightarrow> vars \<Rightarrow> error + vars" where
  "outer m clusterDistance locs location v =
     (if id_loc location \<in> processed v then Inr v
      else (case m (latLng location) of
          None \<Rightarrow> Inl ProjectionFailure
        | Some locationPoint \<Rightarrow>
            (case forEach locs (inner m locationPoint clusterDistance)
                    ([location], v\<lparr>processed := insert (id_loc location) (processed v),
                                    calls := calls v @ [latLng location]\<rparr>) of
               Inl e \<Rightarrow> Inl e
             | Inr (nearbyLocations, v') \<Rightarrow>
                 if length nearbyLocations > 1
                 then (let bnds = newLatLngBounds (map latLng nearbyLocations)
                       in case getCenter bnds of
                            Inl e \<Rightarrow> Inl e
                          | Inr c \<Rightarrow> Inr (v'\<lparr>clusters := clusters v' @
                               [\<lparr>center = c, locations = nearbyLocations, bounds = bnds\<rparr>]\<rparr>))
                 else Inr v')))"

text \<open>
  \<^verbatim>\<open>createClusters\<close>: the returned array, and the projection calls made. Lines 90 to 95 copy
  \<^verbatim>\<open>clusters\<close> and push every location whose identifier is not in \<^verbatim>\<open>processed\<close>.
\<close>

definition createClusters ::
    "Location list \<Rightarrow> LMap option \<Rightarrow> real \<Rightarrow> error + item list \<times> LatLng list" where
  "createClusters locs mp clusterDistance =
     (case mp of
        None \<Rightarrow> Inr (map IsLocation locs, [])
      | Some m \<Rightarrow>
          if length locs = 0 then Inr (map IsLocation locs, [])
          else (case forEach locs (outer m clusterDistance locs)
                       \<lparr>clusters = [], processed = {}, calls = []\<rparr> of
              Inl e \<Rightarrow> Inl e
            | Inr v \<Rightarrow>
                Inr (map IsCluster (clusters v) @
                     map IsLocation (filter (\<lambda>location. id_loc location \<notin> processed v) locs),
                     calls v)))"

subsection \<open>Reading a result\<close>

fun clustersOf :: "item list \<Rightarrow> ClusterGroup list" where
  "clustersOf [] = []"
| "clustersOf (IsCluster c # r) = c # clustersOf r"
| "clustersOf (IsLocation l # r) = clustersOf r"

fun singlesOf :: "item list \<Rightarrow> Location list" where
  "singlesOf [] = []"
| "singlesOf (IsCluster c # r) = singlesOf r"
| "singlesOf (IsLocation l # r) = l # singlesOf r"

text \<open>The identifiers in the member lists of some clusters, cluster after cluster.\<close>

definition memberIds :: "ClusterGroup list \<Rightarrow> string list" where
  "memberIds cs = concat (map (\<lambda>c. map id_loc (locations c)) cs)"

text \<open>The locations a result covers: the members of its clusters, then its single locations.\<close>

definition covered :: "item list \<Rightarrow> Location list" where
  "covered r = concat (map locations (clustersOf r)) @ singlesOf r"

subsection \<open>Predicates for the proofs\<close>

text \<open>
  The identifiers that belong to a group so far: those of the group under construction, then
  those of the clusters already pushed.
\<close>

definition owned :: "Location list \<times> vars \<Rightarrow> string list" where
  "owned st = map id_loc (fst st) @ memberIds (clusters (snd st))"

definition invI :: "Location list \<times> vars \<Rightarrow> bool" where
  "invI st \<longleftrightarrow> distinct (owned st) \<and> set (owned st) \<subseteq> processed (snd st)"

definition invO :: "vars \<Rightarrow> bool" where
  "invO v \<longleftrightarrow> distinct (memberIds (clusters v)) \<and> set (memberIds (clusters v)) \<subseteq> processed v"


text \<open>A cluster as the outer callback builds it.\<close>

definition wellFormed :: "ClusterGroup \<Rightarrow> bool" where
  "wellFormed c \<longleftrightarrow> 1 < length (locations c)
     \<and> bounds c = newLatLngBounds (map latLng (locations c))
     \<and> getCenter (bounds c) = Inr (center c)"


subsection \<open>Example inputs\<close>

definition loc :: "string \<Rightarrow> real \<Rightarrow> real \<Rightarrow> Location" where
  "loc i lat lng = \<lparr>id_loc = i, name = [], coordinates = \<lparr>latitude = lat, longitude = lng\<rparr>\<rparr>"

text \<open>A map that draws longitude along x and latitude along y, one pixel per degree.\<close>

definition plane :: LMap where
  "plane p = Some (snd p, fst p)"

text \<open>A map zoomed out so far that every coordinate falls on the same pixel.\<close>

definition zoomedOut :: LMap where
  "zoomedOut p = Some (0, 0)"

text \<open>The variables as \<^verbatim>\<open>createClusters\<close> initialises them.\<close>

definition start :: vars where
  "start = \<lparr>clusters = [], processed = {}, calls = []\<rparr>"

section \<open>Loops and results\<close>

lemma forEach_invariant:
  assumes "forEach xs f s = Inr s'" and "I s"
    and "\<And>x t t'. x \<in> set xs \<Longrightarrow> I t \<Longrightarrow> f x t = Inr t' \<Longrightarrow> I t'"
  shows "I s'"
  using assms
proof (induction xs arbitrary: s)
  case Nil
  then show ?case by simp
next
  case (Cons x xs)
  from Cons.prems(1) obtain t where t: "f x s = Inr t" and rest: "forEach xs f t = Inr s'"
    by (auto split: sum.splits)
  have "I t" using Cons.prems(2) t Cons.prems(3) [of x s t] by simp
  moreover have "I u'" if "y \<in> set xs" "I u" "f y u = Inr u'" for y u u'
    using Cons.prems(3) [of y u u'] that by simp
  ultimately show ?case using Cons.IH [OF rest] by blast
qed

lemma forEach_total:
  assumes "I s"
    and "\<And>x t. x \<in> set xs \<Longrightarrow> I t \<Longrightarrow> \<exists>t'. f x t = Inr t' \<and> I t'"
  shows "\<exists>s'. forEach xs f s = Inr s'"
  using assms
proof (induction xs arbitrary: s)
  case Nil
  then show ?case by simp
next
  case (Cons x xs)
  from Cons.prems obtain t where t: "f x s = Inr t" "I t" by fastforce
  have "\<exists>s'. forEach xs f t = Inr s'"
    using Cons.IH [OF t(2)] Cons.prems(2) by simp
  then show ?case using t by simp
qed

lemma forEach_error:
  assumes "forEach xs f s = Inl e"
  shows "\<exists>x \<in> set xs. \<exists>t. f x t = Inl e"
  using assms
  by (induction xs arbitrary: s) (auto split: sum.splits)


lemma clustersOf_append [simp]: "clustersOf (xs @ ys) = clustersOf xs @ clustersOf ys"
  by (induction xs rule: clustersOf.induct) auto

lemma clustersOf_IsCluster [simp]: "clustersOf (map IsCluster cs) = cs"
  by (induction cs) auto

lemma clustersOf_IsLocation [simp]: "clustersOf (map IsLocation ls) = []"
  by (induction ls) auto

lemma singlesOf_append [simp]: "singlesOf (xs @ ys) = singlesOf xs @ singlesOf ys"
  by (induction xs rule: singlesOf.induct) auto

lemma singlesOf_IsCluster [simp]: "singlesOf (map IsCluster cs) = []"
  by (induction cs) auto

lemma singlesOf_IsLocation [simp]: "singlesOf (map IsLocation ls) = ls"
  by (induction ls) auto

lemma memberIds_snoc [simp]: "memberIds (cs @ [c]) = memberIds cs @ map id_loc (locations c)"
  by (simp add: memberIds_def)

text \<open>
  What a normal return of \<open>createClusters\<close> with a map and a non-empty input is made of.
\<close>

lemma createClusters_run:
  assumes "createClusters locs (Some m) d = Inr (r, tr)" and "locs \<noteq> []"
  shows "\<exists>v. forEach locs (outer m d locs) start = Inr v
     \<and> r = map IsCluster (clusters v) @
           map IsLocation (filter (\<lambda>l. id_loc l \<notin> processed v) locs)
     \<and> tr = calls v"
  using assms by (auto simp: createClusters_def start_def split: sum.splits)

section \<open>The callbacks step by step\<close>

lemma inner_skip:
  "id_loc other \<in> processed v \<Longrightarrow> inner m lp d other (near, v) = Inr (near, v)"
  by (simp add: inner_def)

lemma inner_join:
  "id_loc other \<notin> processed v \<Longrightarrow> m (latLng other) = Some q \<Longrightarrow> distanceTo lp q \<le> d \<Longrightarrow>
   inner m lp d other (near, v) =
     Inr (near @ [other], v\<lparr>calls := calls v @ [latLng other],
                             processed := insert (id_loc other) (processed v)\<rparr>)"
  by (simp add: inner_def Let_def)

lemma inner_pass:
  "id_loc other \<notin> processed v \<Longrightarrow> m (latLng other) = Some q \<Longrightarrow> \<not> distanceTo lp q \<le> d \<Longrightarrow>
   inner m lp d other (near, v) = Inr (near, v\<lparr>calls := calls v @ [latLng other]\<rparr>)"
  by (simp add: inner_def Let_def)

text \<open>
  The shape of a normal return of the outer callback on a location that is not processed.
\<close>

lemma outer_seed:
  assumes "outer m d locs seed v = Inr v'" and "id_loc seed \<notin> processed v"
  shows "\<exists>lp near w. m (latLng seed) = Some lp
    \<and> forEach locs (inner m lp d)
           ([seed], v\<lparr>processed := insert (id_loc seed) (processed v),
                      calls := calls v @ [latLng seed]\<rparr>) = Inr (near, w)
    \<and> (if 1 < length near
       then \<exists>c. getCenter (newLatLngBounds (map latLng near)) = Inr c \<and>
           v' = w\<lparr>clusters := clusters w @
             [\<lparr>center = c, locations = near, bounds = newLatLngBounds (map latLng near)\<rparr>]\<rparr>
       else v' = w)"
proof -
  from assms obtain lp where lp: "m (latLng seed) = Some lp"
    by (auto simp: outer_def split: option.splits)
  let ?v0 = "v\<lparr>processed := insert (id_loc seed) (processed v), calls := calls v @ [latLng seed]\<rparr>"
  from assms lp obtain near w where
    run: "forEach locs (inner m lp d) ([seed], ?v0) = Inr (near, w)"
    by (auto simp: outer_def split: sum.splits)
  have "if 1 < length near
       then \<exists>c. getCenter (newLatLngBounds (map latLng near)) = Inr c \<and>
           v' = w\<lparr>clusters := clusters w @
             [\<lparr>center = c, locations = near, bounds = newLatLngBounds (map latLng near)\<rparr>]\<rparr>
       else v' = w"
    using assms lp run by (auto simp: outer_def Let_def split: sum.splits)
  with lp run show ?thesis by blast
qed



section \<open>What the loops keep\<close>

lemma inner_clusters:
  assumes "inner m lp d other st = Inr st'"
  shows "clusters (snd st') = clusters (snd st)"
  using assms
  by (cases st) (auto simp: inner_def Let_def split: if_splits option.splits)

lemma inner_loop_clusters:
  assumes "forEach others (inner m lp d) st = Inr st'"
  shows "clusters (snd st') = clusters (snd st)"
proof (rule forEach_invariant [OF assms, of "\<lambda>t. clusters (snd t) = clusters (snd st)"])
  show "clusters (snd st) = clusters (snd st)" by simp
next
  fix x t t'
  assume "clusters (snd t) = clusters (snd st)" and "inner m lp d x t = Inr t'"
  then show "clusters (snd t') = clusters (snd st)"
    using inner_clusters by simp
qed

lemma inner_processed:
  assumes "inner m lp d other st = Inr st'"
  shows "processed (snd st) \<subseteq> processed (snd st')"
  using assms
  by (cases st) (auto simp: inner_def Let_def split: if_splits option.splits)

lemma inner_loop_processed:
  assumes "forEach others (inner m lp d) st = Inr st'"
  shows "processed (snd st) \<subseteq> processed (snd st')"
proof (rule forEach_invariant [OF assms, of "\<lambda>t. processed (snd st) \<subseteq> processed (snd t)"])
  show "processed (snd st) \<subseteq> processed (snd st)" by simp
next
  fix x t t'
  assume "processed (snd st) \<subseteq> processed (snd t)" and "inner m lp d x t = Inr t'"
  then show "processed (snd st) \<subseteq> processed (snd t')"
    using inner_processed by blast
qed

lemma outer_processed:
  assumes "outer m d locs location v = Inr v'"
  shows "insert (id_loc location) (processed v) \<subseteq> processed v'"
proof (cases "id_loc location \<in> processed v")
  case True
  then show ?thesis using assms by (auto simp: outer_def)
next
  case False
  from outer_seed [OF assms False] obtain lp near w where
    run: "forEach locs (inner m lp d)
           ([location], v\<lparr>processed := insert (id_loc location) (processed v),
                      calls := calls v @ [latLng location]\<rparr>) = Inr (near, w)"
    and res: "if 1 < length near
       then \<exists>c. getCenter (newLatLngBounds (map latLng near)) = Inr c \<and>
           v' = w\<lparr>clusters := clusters w @
             [\<lparr>center = c, locations = near, bounds = newLatLngBounds (map latLng near)\<rparr>]\<rparr>
       else v' = w"
    by blast
  have "insert (id_loc location) (processed v) \<subseteq> processed w"
    using inner_loop_processed [OF run] by simp
  moreover have "processed v' = processed w"
    using res by (auto split: if_splits)
  ultimately show ?thesis by simp
qed

lemma outer_loop_processed:
  assumes "forEach xs (outer m d locs) v = Inr v'"
  shows "processed v \<union> id_loc ` set xs \<subseteq> processed v'"
  using assms
proof (induction xs arbitrary: v)
  case Nil
  then show ?case by simp
next
  case (Cons x xs)
  from Cons.prems obtain t where t: "outer m d locs x v = Inr t"
    and rest: "forEach xs (outer m d locs) t = Inr v'"
    by (auto split: sum.splits)
  show ?case using outer_processed [OF t] Cons.IH [OF rest] by auto
qed

lemma inner_near:
  assumes "inner m lp d other st = Inr st'" and "fst st \<noteq> []"
  shows "fst st' \<noteq> []"
  using assms
  by (cases st) (auto simp: inner_def Let_def split: if_splits option.splits)

lemma inner_loop_near:
  assumes "forEach others (inner m lp d) st = Inr st'" and "fst st \<noteq> []"
  shows "fst st' \<noteq> []"
  using forEach_invariant [OF assms(1), of "\<lambda>t. fst t \<noteq> []"] assms(2) inner_near
  by blast

lemma inner_calls:
  assumes "inner m lp d other st = Inr st'"
  shows "\<exists>ys. calls (snd st') = calls (snd st) @ ys"
  using assms
  by (cases st) (auto simp: inner_def Let_def split: if_splits option.splits)

lemma inner_loop_calls:
  assumes "forEach others (inner m lp d) st = Inr st'"
  shows "\<exists>ys. calls (snd st') = calls (snd st) @ ys"
proof (rule forEach_invariant [OF assms, of "\<lambda>t. \<exists>ys. calls (snd t) = calls (snd st) @ ys"])
  show "\<exists>ys. calls (snd st) = calls (snd st) @ ys" by simp
next
  fix x t t'
  assume "\<exists>ys. calls (snd t) = calls (snd st) @ ys" and "inner m lp d x t = Inr t'"
  then show "\<exists>ys. calls (snd t') = calls (snd st) @ ys"
    using inner_calls [of m lp d x t t'] by auto
qed

lemma outer_calls:
  assumes "outer m d locs location v = Inr v'"
  shows "\<exists>ys. calls v' = calls v @ ys"
    and "id_loc location \<notin> processed v \<Longrightarrow> \<exists>ys. calls v' = calls v @ latLng location # ys"
proof -
  have "(\<exists>ys. calls v' = calls v @ ys) \<and>
      (id_loc location \<notin> processed v \<longrightarrow> (\<exists>ys. calls v' = calls v @ latLng location # ys))"
  proof (cases "id_loc location \<in> processed v")
    case True
    then show ?thesis using assms by (simp add: outer_def)
  next
    case False
    from outer_seed [OF assms False] obtain lp near w where
      run: "forEach locs (inner m lp d)
             ([location], v\<lparr>processed := insert (id_loc location) (processed v),
                        calls := calls v @ [latLng location]\<rparr>) = Inr (near, w)"
      and res: "if 1 < length near
         then \<exists>c. getCenter (newLatLngBounds (map latLng near)) = Inr c \<and>
             v' = w\<lparr>clusters := clusters w @
               [\<lparr>center = c, locations = near, bounds = newLatLngBounds (map latLng near)\<rparr>]\<rparr>
         else v' = w"
      by blast
    from inner_loop_calls [OF run] obtain ys where "calls w = calls v @ latLng location # ys"
      by auto
    moreover have "calls v' = calls w" using res by (auto split: if_splits)
    ultimately show ?thesis by simp
  qed
  then show "\<exists>ys. calls v' = calls v @ ys"
    and "id_loc location \<notin> processed v \<Longrightarrow> \<exists>ys. calls v' = calls v @ latLng location # ys"
    by blast+
qed

lemma outer_loop_calls:
  assumes "forEach xs (outer m d locs) v = Inr v'"
  shows "\<exists>ys. calls v' = calls v @ ys"
proof (rule forEach_invariant [OF assms, of "\<lambda>t. \<exists>ys. calls t = calls v @ ys"])
  show "\<exists>ys. calls v = calls v @ ys" by simp
next
  fix x t t'
  assume "\<exists>ys. calls t = calls v @ ys" and "outer m d locs x t = Inr t'"
  then show "\<exists>ys. calls t' = calls v @ ys"
    using outer_calls(1) [of m d locs x t t'] by auto
qed

text \<open>
  With a map and a non-empty input, the first projection call is on the first location.
\<close>

lemma createClusters_first_call:
  assumes "createClusters locs (Some m) d = Inr (r, tr)" and "locs \<noteq> []"
  shows "\<exists>ys. tr = latLng (hd locs) # ys"
proof -
  from createClusters_run [OF assms] obtain v where
    v: "forEach locs (outer m d locs) start = Inr v" and tr: "tr = calls v"
    by blast
  from assms(2) obtain x xs where locs: "locs = x # xs" by (cases locs) auto
  from v obtain t where t: "outer m d locs x start = Inr t"
    and rest: "forEach xs (outer m d locs) t = Inr v"
    unfolding locs by (auto split: sum.splits)
  from outer_calls(2) [OF t] obtain ys where "calls t = latLng x # ys"
    by (auto simp: start_def)
  then show ?thesis using outer_loop_calls [OF rest] tr locs by auto
qed

section \<open>Bounds\<close>

lemma foldl_extend:
  "foldl extend_bounds (Corners (s, w) (n, e)) ps =
     Corners (Min (insert s (fst ` set ps)), Min (insert w (snd ` set ps)))
             (Max (insert n (fst ` set ps)), Max (insert e (snd ` set ps)))"
proof (induction ps arbitrary: s w n e)
  case Nil
  then show ?case by simp
next
  case (Cons p ps)
  obtain lat lng where p: "p = (lat, lng)" by (cases p)
  have mn: "Min (insert (min a b) A) = Min (insert b (insert a A))" if "finite A" for a b :: real and A
    using that by (cases "A = {}") (simp_all add: min.assoc min.commute)
  have mx: "Max (insert (max a b) A) = Max (insert b (insert a A))" if "finite A" for a b :: real and A
    using that by (cases "A = {}") (simp_all add: max.assoc max.commute)
  show ?case
    by (simp add: p Cons.IH mn mx)
qed

lemma newLatLngBounds_nonempty:
  assumes "ps \<noteq> []"
  shows "newLatLngBounds ps =
     Corners (Min (fst ` set ps), Min (snd ` set ps)) (Max (fst ` set ps), Max (snd ` set ps))"
proof -
  from assms obtain p qs where ps: "ps = p # qs" by (cases ps) auto
  obtain lat lng where p: "p = (lat, lng)" by (cases p)
  show ?thesis by (simp add: ps p newLatLngBounds_def foldl_extend)
qed

lemma getCenter_newLatLngBounds:
  assumes "ps \<noteq> []"
  shows "getCenter (newLatLngBounds ps) =
     Inr ((Min (fst ` set ps) + Max (fst ` set ps)) / 2,
          (Min (snd ` set ps) + Max (snd ` set ps)) / 2)"
  by (simp add: newLatLngBounds_nonempty [OF assms])

section \<open>Normal returns and errors\<close>

lemma inner_returns:
  assumes "m (latLng other) \<noteq> None"
  shows "\<exists>st'. inner m lp d other st = Inr st'"
  using assms by (cases st) (auto simp: inner_def Let_def)

lemma inner_loop_returns:
  assumes "\<forall>l \<in> set others. m (latLng l) \<noteq> None"
  shows "\<exists>st'. forEach others (inner m lp d) st = Inr st'"
proof (rule forEach_total [of "\<lambda>t. True"])
  show True ..
next
  fix x t
  assume "x \<in> set others"
  then show "\<exists>t'. inner m lp d x t = Inr t' \<and> True"
    using inner_returns assms by simp
qed

lemma outer_returns:
  assumes "\<forall>l \<in> set locs. m (latLng l) \<noteq> None" and "m (latLng location) \<noteq> None"
  shows "\<exists>v'. outer m d locs location v = Inr v'"
proof (cases "id_loc location \<in> processed v")
  case True
  then show ?thesis by (simp add: outer_def)
next
  case False
  from assms(2) obtain lp where lp: "m (latLng location) = Some lp" by auto
  let ?v0 = "v\<lparr>processed := insert (id_loc location) (processed v),
                calls := calls v @ [latLng location]\<rparr>"
  from inner_loop_returns [OF assms(1)] obtain near w where
    run: "forEach locs (inner m lp d) ([location], ?v0) = Inr (near, w)"
    by (metis surj_pair)
  have "near \<noteq> []" using inner_loop_near [OF run] by simp
  then obtain c where "getCenter (newLatLngBounds (map latLng near)) = Inr c"
    using getCenter_newLatLngBounds [of "map latLng near"] by simp
  then show ?thesis using False lp run by (simp add: outer_def Let_def)
qed

text \<open>
  \<open>createClusters\<close> returns normally whenever the projection is defined on every input point.
\<close>

lemma createClusters_returns:
  assumes "\<forall>l \<in> set locs. m (latLng l) \<noteq> None"
  shows "\<exists>r tr. createClusters locs (Some m) d = Inr (r, tr)"
proof -
  have "\<exists>v. forEach locs (outer m d locs) start = Inr v"
  proof (rule forEach_total [of "\<lambda>t. True"])
    show True ..
  next
    fix x t
    assume "x \<in> set locs"
    then show "\<exists>t'. outer m d locs x t = Inr t' \<and> True"
      using outer_returns [OF assms] assms by simp
  qed
  then show ?thesis by (auto simp: createClusters_def start_def)
qed

lemma inner_error:
  assumes "inner m lp d other st = Inl e"
  shows "e = ProjectionFailure"
  using assms by (cases st) (auto simp: inner_def Let_def split: if_splits option.splits)

lemma outer_error:
  assumes "outer m d locs location v = Inl e"
  shows "e \<noteq> InvalidThreshold"
proof
  assume e: "e = InvalidThreshold"
  have np: "id_loc location \<notin> processed v" using assms by (auto simp: outer_def split: if_splits)
  from assms np e obtain lp where lp: "m (latLng location) = Some lp"
    by (auto simp: outer_def split: option.splits)
  let ?v0 = "v\<lparr>processed := insert (id_loc location) (processed v),
                calls := calls v @ [latLng location]\<rparr>"
  show False
  proof (cases "forEach locs (inner m lp d) ([location], ?v0)")
    case (Inl e')
    then have "e' = ProjectionFailure" using forEach_error [OF Inl] inner_error by blast
    moreover have "e' = e" using assms np lp Inl by (simp add: outer_def)
    ultimately show False using e by simp
  next
    case (Inr st)
    obtain near w where st: "st = (near, w)" by (cases st)
    have "getCenter b = Inl e' \<Longrightarrow> e' = InvalidBounds" for b e'
      by (cases b) (auto simp: split_paired_all)
    then show False using assms np lp Inr st e
      by (auto simp: outer_def Let_def split: if_splits sum.splits)
  qed
qed

lemma createClusters_error:
  "createClusters locs mp d \<noteq> Inl InvalidThreshold"
proof
  assume a: "createClusters locs mp d = Inl InvalidThreshold"
  then obtain m where m: "mp = Some m" and ne: "locs \<noteq> []"
    by (auto simp: createClusters_def split: option.splits if_splits)
  from a m ne have "forEach locs (outer m d locs) start = Inl InvalidThreshold"
    by (auto simp: createClusters_def start_def split: sum.splits)
  from forEach_error [OF this] show False using outer_error by blast
qed

section \<open>Clusters\<close>

lemma inner_invI:
  assumes "inner m lp d other st = Inr st'" and "invI st"
  shows "invI st'"
proof (cases st)
  case (Pair near v)
  show ?thesis
  proof (cases "id_loc other \<in> processed v")
    case True
    then show ?thesis using assms Pair by (simp add: inner_def)
  next
    case False
    from assms(1) Pair False obtain q where q: "m (latLng other) = Some q"
      by (auto simp: inner_def split: option.splits)
    let ?v1 = "v\<lparr>calls := calls v @ [latLng other]\<rparr>"
    show ?thesis
    proof (cases "distanceTo lp q \<le> d")
      case True
      then have st': "st' = (near @ [other],
          ?v1\<lparr>processed := insert (id_loc other) (processed ?v1)\<rparr>)"
        using assms(1) Pair False q by (simp add: inner_def Let_def)
      have "id_loc other \<notin> set (owned st)"
        using assms(2) False Pair by (auto simp: invI_def)
      then show ?thesis using assms(2) Pair unfolding st' invI_def owned_def
        by auto
    next
      case far: False
      then have "st' = (near, ?v1)"
        using assms(1) Pair False q by (simp add: inner_def Let_def)
      then show ?thesis using assms(2) Pair by (simp add: invI_def owned_def)
    qed
  qed
qed

lemma outer_invO:
  assumes "outer m d locs location v = Inr v'" and "invO v"
  shows "invO v'"
proof (cases "id_loc location \<in> processed v")
  case True
  then show ?thesis using assms by (simp add: outer_def)
next
  case False
  from assms(1) False obtain lp where lp: "m (latLng location) = Some lp"
    by (auto simp: outer_def split: option.splits)
  let ?v0 = "v\<lparr>processed := insert (id_loc location) (processed v),
                calls := calls v @ [latLng location]\<rparr>"
  from assms(1) False lp obtain near w where
    run: "forEach locs (inner m lp d) ([location], ?v0) = Inr (near, w)"
    by (auto simp: outer_def split: sum.splits)
  have "invI ([location], ?v0)"
    using assms(2) False by (auto simp: invI_def invO_def owned_def)
  then have I: "invI (near, w)"
    using forEach_invariant [OF run, of invI] inner_invI by blast
  show ?thesis
  proof (cases "length near > 1")
    case True
    with assms(1) False lp run obtain c where
      "v' = w\<lparr>clusters := clusters w @ [\<lparr>center = c, locations = near,
          bounds = newLatLngBounds (map latLng near)\<rparr>]\<rparr>"
      by (auto simp: outer_def Let_def split: sum.splits)
    then show ?thesis using I by (auto simp: invI_def invO_def owned_def)
  next
    case False
    with assms(1) \<open>id_loc location \<notin> processed v\<close> lp run have "v' = w"
      by (auto simp: outer_def)
    then show ?thesis using I by (auto simp: invI_def invO_def owned_def)
  qed
qed

lemma outer_wellFormed:
  assumes "outer m d locs location v = Inr v'" and "\<forall>c \<in> set (clusters v). wellFormed c"
  shows "\<forall>c \<in> set (clusters v'). wellFormed c"
proof (cases "id_loc location \<in> processed v")
  case True
  then show ?thesis using assms by (simp add: outer_def)
next
  case False
  from outer_seed [OF assms(1) False] obtain lp near w where
    run: "forEach locs (inner m lp d)
           ([location], v\<lparr>processed := insert (id_loc location) (processed v),
                      calls := calls v @ [latLng location]\<rparr>) = Inr (near, w)"
    and res: "if 1 < length near
       then \<exists>c. getCenter (newLatLngBounds (map latLng near)) = Inr c \<and>
           v' = w\<lparr>clusters := clusters w @
             [\<lparr>center = c, locations = near, bounds = newLatLngBounds (map latLng near)\<rparr>]\<rparr>
       else v' = w"
    by blast
  have cw: "clusters w = clusters v" using inner_loop_clusters [OF run] by simp
  show ?thesis
  proof (cases "1 < length near")
    case True
    with res obtain c where c: "getCenter (newLatLngBounds (map latLng near)) = Inr c"
      and v': "v' = w\<lparr>clusters := clusters w @
             [\<lparr>center = c, locations = near, bounds = newLatLngBounds (map latLng near)\<rparr>]\<rparr>"
      by auto
    have "wellFormed \<lparr>center = c, locations = near, bounds = newLatLngBounds (map latLng near)\<rparr>"
      using c True by (simp add: wellFormed_def)
    then show ?thesis using assms(2) cw v' by simp
  next
    case False
    then show ?thesis using res assms(2) cw by simp
  qed
qed

lemma createClusters_wellFormed:
  assumes "createClusters locs mp d = Inr (r, tr)" and "c \<in> set (clustersOf r)"
  shows "wellFormed c"
proof (cases "mp = None \<or> locs = []")
  case True
  then show ?thesis
    using assms by (auto simp: createClusters_def split: option.splits)
next
  case False
  then obtain m where m: "mp = Some m" and ne: "locs \<noteq> []" by auto
  from createClusters_run [OF assms(1) [unfolded m] ne] obtain v where
    v: "forEach locs (outer m d locs) start = Inr v"
    and r: "r = map IsCluster (clusters v) @
                map IsLocation (filter (\<lambda>l. id_loc l \<notin> processed v) locs)"
    by blast
  have "\<forall>c \<in> set (clusters start). wellFormed c" by (simp add: start_def)
  then have "\<forall>c \<in> set (clusters v). wellFormed c"
    using forEach_invariant [OF v, of "\<lambda>t. \<forall>c \<in> set (clusters t). wellFormed c"]
      outer_wellFormed by blast
  then show ?thesis using assms(2) r by simp
qed

text \<open>
  Every emitted cluster has at least two members.
\<close>

lemma clusters_have_two_members:
  assumes "createClusters locs mp d = Inr (r, tr)" and "c \<in> set (clustersOf r)"
  shows "2 \<le> length (locations c)"
  using createClusters_wellFormed [OF assms] by (simp add: wellFormed_def)

text \<open>
  Every identifier of the input is in \<^verbatim>\<open>processed\<close> when the first loop ends: the seed of a
  group is added on line 62, also when nothing joins it. So the loop of lines 91 to 95 pushes
  nothing, and a result computed with a map from a non-empty input holds no single location.
\<close>

lemma createClusters_no_singles:
  assumes "createClusters locs (Some m) d = Inr (r, tr)" and "locs \<noteq> []"
  shows "singlesOf r = []"
proof -
  from createClusters_run [OF assms] obtain v where
    v: "forEach locs (outer m d locs) start = Inr v"
    and r: "r = map IsCluster (clusters v) @
                map IsLocation (filter (\<lambda>l. id_loc l \<notin> processed v) locs)"
    by blast
  have "id_loc ` set locs \<subseteq> processed v" using outer_loop_processed [OF v] by simp
  then have "filter (\<lambda>l. id_loc l \<notin> processed v) locs = []"
    by (auto simp: filter_empty_conv)
  then show ?thesis using r by simp
qed

section \<open>Negative thresholds\<close>

lemma distanceTo_nonneg: "0 \<le> distanceTo p q"
  by (simp add: distanceTo_def)

lemma inner_negative:
  assumes "inner m lp d other st = Inr st'" and "d < 0"
  shows "fst st' = fst st"
proof -
  have "\<not> distanceTo lp q \<le> d" for q
    using distanceTo_nonneg [of lp q] assms(2) by simp
  then show ?thesis using assms(1)
    by (cases st) (auto simp: inner_def Let_def split: if_splits option.splits)
qed

lemma inner_loop_negative:
  assumes "forEach others (inner m lp d) st = Inr st'" and "d < 0"
  shows "fst st' = fst st"
proof (rule forEach_invariant [OF assms(1), of "\<lambda>t. fst t = fst st"])
  show "fst st = fst st" by simp
next
  fix x t t'
  assume "fst t = fst st" and "inner m lp d x t = Inr t'"
  then show "fst t' = fst st" using inner_negative [OF _ assms(2)] by metis
qed

lemma outer_negative:
  assumes "outer m d locs location v = Inr v'" and "d < 0"
  shows "clusters v' = clusters v"
proof (cases "id_loc location \<in> processed v")
  case True
  then show ?thesis using assms by (simp add: outer_def)
next
  case False
  from outer_seed [OF assms(1) False] obtain lp near w where
    run: "forEach locs (inner m lp d)
           ([location], v\<lparr>processed := insert (id_loc location) (processed v),
                      calls := calls v @ [latLng location]\<rparr>) = Inr (near, w)"
    and res: "if 1 < length near
       then \<exists>c. getCenter (newLatLngBounds (map latLng near)) = Inr c \<and>
           v' = w\<lparr>clusters := clusters w @
             [\<lparr>center = c, locations = near, bounds = newLatLngBounds (map latLng near)\<rparr>]\<rparr>
       else v' = w"
    by blast
  have "near = [location]" using inner_loop_negative [OF run assms(2)] by simp
  then have "v' = w" using res by simp
  then show ?thesis using inner_loop_clusters [OF run] by simp
qed

section \<open>Distance to the seed\<close>











section \<open>The claims\<close>

subsection \<open>Locations that nothing joins\<close>

text \<open>
  C1. The claim is that cluster members and single locations of a result together are the
  input, nothing missing. The code loses every location whose group stays alone: of three
  locations drawn at x = 0, 10 and 100 with threshold 20, the first two form a cluster and the
  third is in no item of the result. The result is evaluated here; the locations it covers are
  the two members of the cluster.
\<close>

theorem isolated_point_is_lost:
  "createClusters [loc ''a'' 0 0, loc ''b'' 0 10, loc ''c'' 0 100] (Some plane) 20 =
     Inr ([IsCluster \<lparr>center = (0, 5), locations = [loc ''a'' 0 0, loc ''b'' 0 10],
                      bounds = Corners (0, 0) (0, 10)\<rparr>],
          [(0, 0), (0, 10), (0, 100), (0, 100)])
   \<and> covered [IsCluster \<lparr>center = (0, 5), locations = [loc ''a'' 0 0, loc ''b'' 0 10],
                      bounds = Corners (0, 0) (0, 10)\<rparr>] = [loc ''a'' 0 0, loc ''b'' 0 10]
   \<and> loc ''c'' 0 100 \<notin> set [loc ''a'' 0 0, loc ''b'' 0 10]"
  by (simp add: createClusters_def outer_def inner_def loc_def plane_def latLng_def
      distanceTo_def newLatLngBounds_def covered_def)

text \<open>
  C2. The claim is that a group of exactly one member is emitted as that single location.
  Two locations drawn 100 pixels apart with threshold 20 form two groups of one member each,
  and the result is empty: both are omitted. (That an emitted cluster has at least two members
  is \<open>clusters_have_two_members\<close>.)
\<close>

theorem groups_of_one_are_omitted:
  "createClusters [loc ''a'' 0 0, loc ''b'' 0 100] (Some plane) 20 =
     Inr ([], [(0, 0), (0, 100), (0, 100)])"
  by (simp add: createClusters_def outer_def inner_def loc_def plane_def latLng_def
      distanceTo_def)

text \<open>
  C3. The claim is that threshold 0 on locations drawn at distinct positions returns one
  single location per input point. Two locations drawn 5 pixels apart with threshold 0 give the
  empty result: no cluster, and no single location either.
\<close>

theorem zero_threshold_returns_nothing:
  "createClusters [loc ''a'' 0 0, loc ''b'' 0 5] (Some plane) 0 =
     Inr ([], [(0, 0), (0, 5), (0, 5)])
   \<and> plane (latLng (loc ''a'' 0 0)) \<noteq> plane (latLng (loc ''b'' 0 5))"
  by (simp add: createClusters_def outer_def inner_def loc_def plane_def latLng_def
      distanceTo_def)

subsection \<open>Thresholds\<close>

text \<open>
  C4, as stated, fails: with threshold -1 and one location the call returns normally, the
  empty array, after one call of the projection.
\<close>

theorem negative_threshold_counterexample:
  "createClusters [loc ''a'' 0 0] (Some plane) (- 1) = Inr ([], [(0, 0)]) \<and>
   createClusters [loc ''a'' 0 0] (Some plane) (- 1) \<noteq> Inl InvalidThreshold"
  by (simp add: createClusters_def outer_def inner_def loc_def plane_def latLng_def
      distanceTo_def)

text \<open>
  C4, amended. With a negative threshold \<open>createClusters\<close> never fails with
  \<open>InvalidThreshold\<close>. When no call of the projection throws, it returns normally, the result
  holds no cluster, and with a map and a non-empty input the projection has been called.
\<close>

theorem negative_threshold_is_not_rejected:
  assumes "d < 0"
  shows "createClusters locs mp d \<noteq> Inl InvalidThreshold \<and>
     ((\<forall>m. mp = Some m \<longrightarrow> (\<forall>l \<in> set locs. m (latLng l) \<noteq> None)) \<longrightarrow>
        (\<exists>r tr. createClusters locs mp d = Inr (r, tr) \<and> clustersOf r = [] \<and>
           (mp \<noteq> None \<and> locs \<noteq> [] \<longrightarrow> tr \<noteq> [])))"
proof (intro conjI impI)
  show "createClusters locs mp d \<noteq> Inl InvalidThreshold" by (rule createClusters_error)
next
  assume ok: "\<forall>m. mp = Some m \<longrightarrow> (\<forall>l \<in> set locs. m (latLng l) \<noteq> None)"
  show "\<exists>r tr. createClusters locs mp d = Inr (r, tr) \<and> clustersOf r = [] \<and>
           (mp \<noteq> None \<and> locs \<noteq> [] \<longrightarrow> tr \<noteq> [])"
  proof (cases "mp = None \<or> locs = []")
    case True
    then show ?thesis by (auto simp: createClusters_def split: option.splits)
  next
    case False
    then obtain m where m: "mp = Some m" and ne: "locs \<noteq> []" by auto
    from createClusters_returns [of locs m d] ok m obtain r tr where
      run: "createClusters locs (Some m) d = Inr (r, tr)" by auto
    from createClusters_run [OF run ne] obtain v where
      v: "forEach locs (outer m d locs) start = Inr v"
      and r: "r = map IsCluster (clusters v) @
                  map IsLocation (filter (\<lambda>l. id_loc l \<notin> processed v) locs)"
      by blast
    have "clusters v = clusters start"
    proof (rule forEach_invariant [OF v, of "\<lambda>t. clusters t = clusters start"])
      show "clusters start = clusters start" by simp
    next
      fix x t t'
      assume "clusters t = clusters start" and "outer m d locs x t = Inr t'"
      then show "clusters t' = clusters start" using outer_negative [OF _ assms] by metis
    qed
    then have "clustersOf r = []" using r by (simp add: start_def)
    moreover have "tr \<noteq> []" using createClusters_first_call [OF run ne] by auto
    ultimately show ?thesis using run m by simp
  qed
qed

theorem negative_threshold_is_not_rejected_witness:
  "(- 1 :: real) < 0 \<and>
   createClusters [loc ''a'' 0 0, loc ''b'' 0 1] (Some plane) (- 1) \<noteq> Inl InvalidThreshold \<and>
   createClusters [loc ''a'' 0 0, loc ''b'' 0 1] (Some plane) (- 1) =
     Inr ([], [(0, 0), (0, 1), (0, 1)])"
proof -
  have neg: "(- 1 :: real) < 0" by simp
  have run: "createClusters [loc ''a'' 0 0, loc ''b'' 0 1] (Some plane) (- 1) =
     Inr ([], [(0, 0), (0, 1), (0, 1)])"
    by (simp add: createClusters_def outer_def inner_def loc_def plane_def latLng_def
        distanceTo_def)
  show ?thesis
    using neg run
      negative_threshold_is_not_rejected [OF neg, of "[loc ''a'' 0 0, loc ''b'' 0 1]" "Some plane"]
    by simp
qed

text \<open>
  C5. Three locations S, P, Q with pairwise distinct identifiers are drawn at (0,0), (10,0) and
  (19,0), and the threshold is 10. The result is one cluster whose members are S and P: P is at
  distance 10 from the seed S and joins, Q is at distance 19 from S and does not, although it
  is at distance 9 from the member P.
\<close>

theorem seed_only_membership:
  assumes "distinct [id_loc S, id_loc P, id_loc Q]"
    and "m (latLng S) = Some (0, 0)" and "m (latLng P) = Some (10, 0)"
    and "m (latLng Q) = Some (19, 0)"
  shows "\<exists>c tr. createClusters [S, P, Q] (Some m) 10 = Inr ([IsCluster c], tr)
           \<and> locations c = [S, P]
           \<and> distanceTo (0, 0) (10, 0) = 10 \<and> distanceTo (0, 0) (19, 0) = 19
           \<and> distanceTo (10, 0) (19, 0) = 9"
proof -
  have d1: "distanceTo (0, 0) (10, 0) = 10" and d2: "distanceTo (0, 0) (19, 0) = 19"
    and d3: "distanceTo (10, 0) (19, 0) = 9"
    by (simp_all add: distanceTo_def)
  have ids: "id_loc S \<noteq> id_loc P" "id_loc S \<noteq> id_loc Q" "id_loc P \<noteq> id_loc Q"
    using assms(1) by auto
  let ?v0 = "start\<lparr>processed := insert (id_loc S) (processed start),
                   calls := calls start @ [latLng S]\<rparr>"
  have scanS: "forEach [S, P, Q] (inner m (0, 0) 10) ([S], ?v0) =
      Inr ([S, P], \<lparr>clusters = [], processed = {id_loc P, id_loc S},
                    calls = [latLng S, latLng P, latLng Q]\<rparr>)"
    using ids assms(2-4) d1 d2
    by (simp add: inner_skip inner_join inner_pass start_def)
  obtain c where c: "getCenter (newLatLngBounds (map latLng [S, P])) = Inr c"
    using getCenter_newLatLngBounds [of "map latLng [S, P]"] by auto
  let ?c = "\<lparr>center = c, locations = [S, P], bounds = newLatLngBounds (map latLng [S, P])\<rparr>"
  let ?v1 = "\<lparr>clusters = [?c], processed = {id_loc P, id_loc S},
                    calls = [latLng S, latLng P, latLng Q]\<rparr>"
  have oS: "outer m 10 [S, P, Q] S start = Inr ?v1"
    using scanS c assms(2) by (simp add: outer_def start_def)
  have oP: "outer m 10 [S, P, Q] P ?v1 = Inr ?v1"
    by (simp add: outer_def)
  let ?v2 = "?v1\<lparr>processed := insert (id_loc Q) (processed ?v1),
                   calls := calls ?v1 @ [latLng Q]\<rparr>"
  have scanQ: "forEach [S, P, Q] (inner m (19, 0) 10) ([Q], ?v2) = Inr ([Q], ?v2)"
    by (simp add: inner_skip)
  have oQ: "outer m 10 [S, P, Q] Q ?v1 = Inr ?v2"
    using scanQ ids assms(4) by (simp add: outer_def)
  have "createClusters [S, P, Q] (Some m) 10 =
      Inr ([IsCluster ?c], [latLng S, latLng P, latLng Q, latLng Q])"
    using oS oP oQ by (simp add: createClusters_def start_def)
  then show ?thesis using d1 d2 d3 by simp
qed

theorem seed_only_membership_witness:
  "createClusters [loc ''S'' 0 0, loc ''P'' 0 10, loc ''Q'' 0 19] (Some plane) 10 =
     Inr ([IsCluster \<lparr>center = (0, 5), locations = [loc ''S'' 0 0, loc ''P'' 0 10],
                      bounds = Corners (0, 0) (0, 10)\<rparr>],
          [(0, 0), (0, 10), (0, 19), (0, 19)])"
proof -
  have "distinct [id_loc (loc ''S'' 0 0), id_loc (loc ''P'' 0 10), id_loc (loc ''Q'' 0 19)]"
    by (simp add: loc_def)
  moreover have "plane (latLng (loc ''S'' 0 0)) = Some (0, 0)"
    and "plane (latLng (loc ''P'' 0 10)) = Some (10, 0)"
    and "plane (latLng (loc ''Q'' 0 19)) = Some (19, 0)"
    by (simp_all add: loc_def plane_def latLng_def)
  ultimately have "\<exists>c tr. createClusters [loc ''S'' 0 0, loc ''P'' 0 10, loc ''Q'' 0 19]
        (Some plane) 10 = Inr ([IsCluster c], tr)
      \<and> locations c = [loc ''S'' 0 0, loc ''P'' 0 10]
           \<and> distanceTo (0, 0) (10, 0) = 10 \<and> distanceTo (0, 0) (19, 0) = 19
           \<and> distanceTo (10, 0) (19, 0) = 9"
    by (rule seed_only_membership)
  moreover have "createClusters [loc ''S'' 0 0, loc ''P'' 0 10, loc ''Q'' 0 19] (Some plane) 10 =
     Inr ([IsCluster \<lparr>center = (0, 5), locations = [loc ''S'' 0 0, loc ''P'' 0 10],
                      bounds = Corners (0, 0) (0, 10)\<rparr>],
          [(0, 0), (0, 10), (0, 19), (0, 19)])"
    by (simp add: createClusters_def outer_def inner_def loc_def plane_def latLng_def
        distanceTo_def newLatLngBounds_def)
  ultimately show ?thesis by simp
qed



subsection \<open>Clusters\<close>

text \<open>
  C7. The centre of every emitted cluster is the midpoint of the bounding box of its members:
  half the sum of the least and the greatest latitude, and likewise for the longitude. The
  example of the claim, members at (10, 10) and (20, 30) with centre (15, 20), follows it; a
  cluster whose centre is not the mean of its members comes after.
\<close>

theorem center_is_bounding_box_midpoint:
  assumes "createClusters locs mp d = Inr (r, tr)" and "c \<in> set (clustersOf r)"
  shows "center c =
     ((Min ((\<lambda>l. latitude (coordinates l)) ` set (locations c)) +
       Max ((\<lambda>l. latitude (coordinates l)) ` set (locations c))) / 2,
      (Min ((\<lambda>l. longitude (coordinates l)) ` set (locations c)) +
       Max ((\<lambda>l. longitude (coordinates l)) ` set (locations c))) / 2)"
proof -
  have wf: "wellFormed c" using createClusters_wellFormed [OF assms] .
  then have ne: "map latLng (locations c) \<noteq> []" by (auto simp: wellFormed_def)
  have "getCenter (newLatLngBounds (map latLng (locations c))) = Inr (center c)"
    using wf by (auto simp: wellFormed_def)
  then have "center c =
     ((Min (fst ` set (map latLng (locations c))) + Max (fst ` set (map latLng (locations c)))) / 2,
      (Min (snd ` set (map latLng (locations c))) + Max (snd ` set (map latLng (locations c)))) / 2)"
    using getCenter_newLatLngBounds [OF ne] by simp
  moreover have "fst ` set (map latLng (locations c)) = (\<lambda>l. latitude (coordinates l)) ` set (locations c)"
    by (auto simp: latLng_def image_iff)
  moreover have "snd ` set (map latLng (locations c)) = (\<lambda>l. longitude (coordinates l)) ` set (locations c)"
    by (auto simp: latLng_def image_iff)
  ultimately show ?thesis by simp
qed

theorem center_is_bounding_box_midpoint_witness:
  "createClusters [loc ''a'' 10 10, loc ''b'' 20 30] (Some zoomedOut) 50 =
     Inr ([IsCluster \<lparr>center = (15, 20), locations = [loc ''a'' 10 10, loc ''b'' 20 30],
                      bounds = Corners (10, 10) (20, 30)\<rparr>],
          [(10, 10), (20, 30)])
   \<and> center \<lparr>center = (15, 20), locations = [loc ''a'' 10 10, loc ''b'' 20 30],
                      bounds = Corners (10, 10) (20, 30)\<rparr> = ((10 + 20) / 2, (10 + 30) / 2)"
proof -
  let ?c = "\<lparr>center = (15, 20), locations = [loc ''a'' 10 10, loc ''b'' 20 30],
                      bounds = Corners (10, 10) (20, 30)\<rparr>"
  have run: "createClusters [loc ''a'' 10 10, loc ''b'' 20 30] (Some zoomedOut) 50 =
     Inr ([IsCluster ?c], [(10, 10), (20, 30)])"
    by (simp add: createClusters_def outer_def inner_def loc_def zoomedOut_def latLng_def
        distanceTo_def newLatLngBounds_def)
  have mem: "?c \<in> set (clustersOf [IsCluster ?c])" by simp
  show ?thesis
    using run center_is_bounding_box_midpoint [OF run mem] by (simp add: loc_def)
qed

text \<open>
  Members at (0, 0), (0, 0) and (30, 60): the centre is (15, 30), the mean is (10, 20).
\<close>

lemma center_is_not_the_mean:
  "createClusters [loc ''a'' 0 0, loc ''b'' 0 0, loc ''c'' 30 60] (Some zoomedOut) 50 =
     Inr ([IsCluster \<lparr>center = (15, 30),
                      locations = [loc ''a'' 0 0, loc ''b'' 0 0, loc ''c'' 30 60],
                      bounds = Corners (0, 0) (30, 60)\<rparr>],
          [(0, 0), (0, 0), (30, 60)])
   \<and> ((0 + 0 + 30) / 3, (0 + 0 + 60) / 3) = (10 :: real, 20 :: real)"
  by (simp add: createClusters_def outer_def inner_def loc_def zoomedOut_def latLng_def
      distanceTo_def newLatLngBounds_def)

text \<open>
  C9. The clusters of a result are pairwise disjoint and without repetition: listing the
  identifiers of the members of every emitted cluster, cluster after cluster, gives a list in
  which no identifier occurs twice. This holds for every input, so in particular for inputs with
  pairwise distinct identifiers: a location enters a group only while its identifier is not in
  \<^verbatim>\<open>processed\<close>, and the identifier is added as it enters.
\<close>

theorem clusters_disjoint:
  assumes "createClusters locs mp d = Inr (r, tr)"
  shows "distinct (memberIds (clustersOf r))"
proof (cases "mp = None \<or> locs = []")
  case True
  then show ?thesis
    using assms by (auto simp: createClusters_def memberIds_def split: option.splits)
next
  case False
  then obtain m where m: "mp = Some m" and ne: "locs \<noteq> []" by auto
  from createClusters_run [OF assms [unfolded m] ne] obtain v where
    v: "forEach locs (outer m d locs) start = Inr v"
    and r: "r = map IsCluster (clusters v) @
                map IsLocation (filter (\<lambda>l. id_loc l \<notin> processed v) locs)"
    by blast
  have "invO start"
    by (simp add: invO_def memberIds_def start_def)
  then have "invO v"
    using forEach_invariant [OF v, of invO] outer_invO by blast
  then show ?thesis using r by (simp add: invO_def)
qed

theorem clusters_disjoint_witness:
  "createClusters [loc ''a'' 0 0, loc ''b'' 0 1, loc ''c'' 0 100, loc ''d'' 0 101] (Some plane) 5 =
     Inr ([IsCluster \<lparr>center = (0, 1 / 2), locations = [loc ''a'' 0 0, loc ''b'' 0 1],
                      bounds = Corners (0, 0) (0, 1)\<rparr>,
           IsCluster \<lparr>center = (0, 201 / 2), locations = [loc ''c'' 0 100, loc ''d'' 0 101],
                      bounds = Corners (0, 100) (0, 101)\<rparr>],
          [(0, 0), (0, 1), (0, 100), (0, 101), (0, 100), (0, 101)])
   \<and> distinct [''a'', ''b'', ''c'', ''d'']"
proof -
  have run: "createClusters [loc ''a'' 0 0, loc ''b'' 0 1, loc ''c'' 0 100, loc ''d'' 0 101]
      (Some plane) 5 =
     Inr ([IsCluster \<lparr>center = (0, 1 / 2), locations = [loc ''a'' 0 0, loc ''b'' 0 1],
                      bounds = Corners (0, 0) (0, 1)\<rparr>,
           IsCluster \<lparr>center = (0, 201 / 2), locations = [loc ''c'' 0 100, loc ''d'' 0 101],
                      bounds = Corners (0, 100) (0, 101)\<rparr>],
          [(0, 0), (0, 1), (0, 100), (0, 101), (0, 100), (0, 101)])"
    by (simp add: createClusters_def outer_def inner_def loc_def plane_def latLng_def
        distanceTo_def newLatLngBounds_def)
  show ?thesis using run clusters_disjoint [OF run] by (simp add: memberIds_def loc_def)
qed

subsection \<open>No map, no locations\<close>

text \<open>
  C10. Without a map, or with an empty input, \<open>createClusters\<close> returns its input as it is
  and calls no projection; the empty input gives the empty result for every threshold and
  every map.
\<close>

theorem no_map_or_no_locations:
  "(mp = None \<or> locs = [] \<longrightarrow> createClusters locs mp d = Inr (map IsLocation locs, [])) \<and>
   createClusters [] mp d = Inr ([], [])"
  by (auto simp: createClusters_def split: option.splits)

theorem no_map_or_no_locations_witness:
  "createClusters [loc ''a'' 0 0, loc ''b'' 0 1] None 50 =
     Inr ([IsLocation (loc ''a'' 0 0), IsLocation (loc ''b'' 0 1)], []) \<and>
   createClusters [] (Some plane) 50 = Inr ([], [])"
  using no_map_or_no_locations [of None "[loc ''a'' 0 0, loc ''b'' 0 1]" 50]
    no_map_or_no_locations [of "Some plane" "[]" 50]
  by simp

end
